theory Spec2Isabelle
  imports Main
begin

section \<open>JavaScript strings\<close>

text \<open>
  A JavaScript string is a sequence of UTF-16 code units. \<open>charCodeAt\<close> returns a code
  unit as a number, and every regular expression of \<open>lib/index.js\<close> is written without
  the \<open>u\<close> flag, so it matches code unit by code unit. A string is therefore a list of
  code units, each one the number \<open>charCodeAt\<close> returns for it. The theorems below hold
  for every list of numbers, so for every string.
\<close>

type_synonym jsstring = "nat list"

text \<open>A string literal of the source: the code units of its (ASCII) characters.\<close>

definition js :: "string \<Rightarrow> jsstring" where
  "js s = map of_char s"

text \<open>
  \<open>String.prototype.slice\<close>: a negative index counts from the end, and both indices are
  clamped to the string.
\<close>

definition rel_index :: "int \<Rightarrow> nat \<Rightarrow> nat" where
  "rel_index i len = (if i < 0 then nat (max (int len + i) 0) else min (nat i) len)"

definition slice :: "jsstring \<Rightarrow> int \<Rightarrow> int \<Rightarrow> jsstring" where
  "slice s start end =
     (let from = rel_index start (length s); to = rel_index end (length s)
      in take (to - from) (drop from s))"

definition slice_from :: "jsstring \<Rightarrow> int \<Rightarrow> jsstring" where
  "slice_from s start = drop (rel_index start (length s)) s"

text \<open>\<open>String.prototype.indexOf\<close> for a single character: \<open>-1\<close> when it is absent.\<close>

fun indexOf :: "jsstring \<Rightarrow> nat \<Rightarrow> int" where
  "indexOf [] c = -1"
| "indexOf (x # xs) c =
     (if x = c then 0 else (let r = indexOf xs c in if r = -1 then -1 else r + 1))"

text \<open>
  \<open>String.prototype.charCodeAt\<close>: the code unit at the index, \<open>NaN\<close> (here \<open>None\<close>)
  when the index is outside the string.
\<close>

definition charCodeAt :: "jsstring \<Rightarrow> int \<Rightarrow> nat option" where
  "charCodeAt s i = (if 0 \<le> i \<and> i < int (length s) then Some (s ! nat i) else None)"

text \<open>\<open>String.prototype.split\<close> on a single character: always at least one part.\<close>

fun split_acc :: "nat \<Rightarrow> jsstring \<Rightarrow> jsstring \<Rightarrow> jsstring list" where
  "split_acc sep cur [] = [cur]"
| "split_acc sep cur (c # cs) =
     (if c = sep then cur # split_acc sep [] cs else split_acc sep (cur @ [c]) cs)"

definition split :: "jsstring \<Rightarrow> nat \<Rightarrow> jsstring list" where
  "split s sep = split_acc sep [] s"

text \<open>Reading an array element: \<open>undefined\<close> (here \<open>None\<close>) outside the array.\<close>

definition at :: "'a list \<Rightarrow> int \<Rightarrow> 'a option" where
  "at xs i = (if 0 \<le> i \<and> i < int (length xs) then Some (xs ! nat i) else None)"

text \<open>\<open>ccount\<close> of the package of that name: how often a character occurs in a string.\<close>

definition ccount :: "jsstring \<Rightarrow> nat \<Rightarrow> nat" where
  "ccount s c = length (filter (\<lambda>x. x = c) s)"

section \<open>Character classes of the regular expressions\<close>

text \<open>\<open>\d\<close> is \<open>[0-9]\<close> and \<open>\w\<close> is \<open>[A-Za-z0-9_]\<close>.\<close>

definition digit :: "nat \<Rightarrow> bool" where
  "digit c = (48 \<le> c \<and> c \<le> 57)"

definition alpha :: "nat \<Rightarrow> bool" where
  "alpha c = ((65 \<le> c \<and> c \<le> 90) \<or> (97 \<le> c \<and> c \<le> 122))"

definition word_char :: "nat \<Rightarrow> bool" where
  "word_char c = (alpha c \<or> digit c \<or> c = 95)"

text \<open>
  The class \<open>[!"&'),.:;<>?\]}]\<close> of \<open>splitUrl\<close>, by code unit:
  \<open>!\<close> 33, \<open>"\<close> 34, \<open>&\<close> 38, \<open>'\<close> 39, \<open>)\<close> 41, \<open>,\<close> 44, \<open>.\<close> 46, \<open>:\<close> 58, \<open>;\<close> 59,
  \<open><\<close> 60, \<open>>\<close> 62, \<open>?\<close> 63, \<open>]\<close> 93, \<open>}\<close> 125.
\<close>

definition trail_char :: "nat \<Rightarrow> bool" where
  "trail_char c = (c \<in> set [33, 34, 38, 39, 41, 44, 46, 58, 59, 60, 62, 63, 93, 125])"

section \<open>isCorrectDomain\<close>

text \<open>\<open>/_/.test(part)\<close> and \<open>/[a-zA-Z\d]/.test(part)\<close>.\<close>

definition test_underscore :: "jsstring \<Rightarrow> bool" where
  "test_underscore part = list_ex (\<lambda>c. c = 95) part"

definition test_alnum :: "jsstring \<Rightarrow> bool" where
  "test_alnum part = list_ex (\<lambda>c. alpha c \<or> digit c) part"

text \<open>
  The third and fourth disjunct of the source read \<open>parts[i] && (...)\<close>: an element that
  is \<open>undefined\<close> or the empty string is falsy and ends the conjunction.
\<close>

definition bad_part :: "jsstring option \<Rightarrow> bool" where
  "bad_part p =
     (case p of
        None \<Rightarrow> False
      | Some part \<Rightarrow> part \<noteq> [] \<and> (test_underscore part \<or> \<not> test_alnum part))"

definition isCorrectDomain :: "jsstring \<Rightarrow> bool" where
  "isCorrectDomain domain =
     (let parts = split domain 46
      in if length parts < 2 \<or>
            list_ex (\<lambda>part. part = []) parts \<or>
            bad_part (at parts (int (length parts) - 1)) \<or>
            bad_part (at parts (int (length parts) - 2))
         then False
         else True)"

text \<open>
  The rule as the specification words it: fewer than two labels, or an empty label, or
  one of the last two labels with an underscore or with no alphanumeric character.
\<close>

definition last_two :: "'a list \<Rightarrow> 'a list" where
  "last_two xs = drop (length xs - 2) xs"

definition spec_rejects_domain :: "jsstring \<Rightarrow> bool" where
  "spec_rejects_domain d =
     (let labels = split d 46
      in length labels < 2 \<or>
         list_ex (\<lambda>l. l = []) labels \<or>
         list_ex (\<lambda>l. test_underscore l \<or> \<not> test_alnum l) (last_two labels))"

section \<open>splitUrl\<close>

text \<open>
  \<open>/[!"&'),.:;<>?\]}]+$/.exec(url)\<close>: the engine tries the start positions from left to
  right. At a position the greedy class run must reach the end of the input (\<open>$\<close>, no
  \<open>m\<close> flag), so the first position that matches is the first one from which every
  remaining character is in the class. The result is the index and the matched text.
\<close>

fun trailExec_from :: "nat \<Rightarrow> jsstring \<Rightarrow> (nat \<times> jsstring) option" where
  "trailExec_from i [] = None"
| "trailExec_from i (c # cs) =
     (if list_all trail_char (c # cs) then Some (i, c # cs) else trailExec_from (Suc i) cs)"

definition trailExec :: "jsstring \<Rightarrow> (nat \<times> jsstring) option" where
  "trailExec url = trailExec_from 0 url"

text \<open>The variables of the \<open>while\<close> loop; \<open>openingParens\<close> is a constant of it.\<close>

record loop_state =
  url :: jsstring
  trail :: jsstring
  closingParenIndex :: int
  closingParens :: nat

definition loop_guard :: "nat \<Rightarrow> loop_state \<Rightarrow> bool" where
  "loop_guard openingParens s =
     (closingParenIndex s \<noteq> -1 \<and> openingParens > closingParens s)"

definition loop_body :: "loop_state \<Rightarrow> loop_state" where
  "loop_body s =
     (let url' = url s @ slice (trail s) 0 (closingParenIndex s + 1);
          trail' = slice_from (trail s) (closingParenIndex s + 1)
      in \<lparr>url = url', trail = trail', closingParenIndex = indexOf trail' 41,
          closingParens = closingParens s + 1\<rparr>)"

function splitUrl_loop :: "nat \<Rightarrow> loop_state \<Rightarrow> loop_state" where
  "splitUrl_loop openingParens s =
     (if loop_guard openingParens s then splitUrl_loop openingParens (loop_body s) else s)"
  by pat_completeness auto
termination
  by (relation "measure (\<lambda>(openingParens, s). openingParens - closingParens s)")
     (auto simp: loop_guard_def loop_body_def Let_def)

text \<open>The state in which \<open>splitUrl\<close> enters the loop, when the expression matched.\<close>

definition loop_init :: "jsstring \<Rightarrow> nat \<Rightarrow> jsstring \<Rightarrow> loop_state" where
  "loop_init url0 i trail0 =
     (let url1 = slice url0 0 (int i)
      in \<lparr>url = url1, trail = trail0, closingParenIndex = indexOf trail0 41,
          closingParens = ccount url1 41\<rparr>)"

definition splitUrl :: "jsstring \<Rightarrow> jsstring \<times> jsstring option" where
  "splitUrl url0 =
     (case trailExec url0 of
        None \<Rightarrow> (url0, None)
      | Some (i, trail0) \<Rightarrow>
          (let s0 = loop_init url0 i trail0;
               openingParens = ccount (url s0) 40;
               s = splitUrl_loop openingParens s0
           in (url s, Some (trail s))))"

text \<open>
  The loop with a bound on its iterations: \<open>None\<close> when the bound is reached while the
  condition of the loop still holds.
\<close>

fun loop_fuel :: "nat \<Rightarrow> nat \<Rightarrow> loop_state \<Rightarrow> loop_state option" where
  "loop_fuel 0 openingParens s = (if loop_guard openingParens s then None else Some s)"
| "loop_fuel (Suc n) openingParens s =
     (if loop_guard openingParens s then loop_fuel n openingParens (loop_body s) else Some s)"

text \<open>The input without the text that the expression of \<open>splitUrl\<close> matched.\<close>

definition untrailed :: "jsstring \<Rightarrow> jsstring" where
  "untrailed url0 =
     (case trailExec url0 of None \<Rightarrow> url0 | Some (i, t) \<Rightarrow> slice url0 0 (int i))"

text \<open>What holds of the variables whenever the condition of the loop is evaluated.\<close>

definition loop_inv :: "nat \<Rightarrow> nat \<Rightarrow> loop_state \<Rightarrow> bool" where
  "loop_inv openingParens c0 s =
     (closingParenIndex s = indexOf (trail s) 41 \<and>
      closingParens s = ccount (url s) 41 \<and>
      ccount (url s) 40 = openingParens \<and>
      list_all trail_char (trail s) \<and>
      ccount (url s) 41 \<le> max openingParens c0)"

text \<open>The text that the expression of \<open>splitUrl\<close> matched: the trailing run.\<close>

definition trail_run :: "jsstring \<Rightarrow> jsstring" where
  "trail_run url0 = (case trailExec url0 of None \<Rightarrow> [] | Some (i, t) \<Rightarrow> t)"

text \<open>\<open>splitUrl\<close> with the bounded loop: \<open>None\<close> when the bound does not suffice.\<close>

definition splitUrl_fuel :: "nat \<Rightarrow> jsstring \<Rightarrow> (jsstring \<times> jsstring option) option" where
  "splitUrl_fuel k url0 =
     (case trailExec url0 of
        None \<Rightarrow> Some (url0, None)
      | Some (i, trail0) \<Rightarrow>
          (let s0 = loop_init url0 i trail0;
               openingParens = ccount (url s0) 40
           in (case loop_fuel k openingParens s0 of
                 None \<Rightarrow> None
               | Some s \<Rightarrow> Some (url s, Some (trail s)))))"

section \<open>Nodes, matches and the boundary predicate\<close>

text \<open>
  The nodes of the syntax tree that the handlers build or that the transform tells
  apart: \<open>text\<close>, \<open>link\<close> (title, url, children), \<open>linkReference\<close>, any other node with
  children, and any other node without.
\<close>

datatype node =
    Text jsstring
  | Link "jsstring option" jsstring "node list"
  | LinkReference "node list"
  | Parent "node list"
  | Leaf

text \<open>What a \<open>ReplaceFunction\<close> returns: \<open>false\<close>, one node, or an array of nodes.\<close>

datatype replacement = NoMatch | One node | Many "node list"

text \<open>The \<open>RegExpMatchObject\<close>, as far as the handlers read it.\<close>

record regexp_match =
  index :: nat
  input :: jsstring

text \<open>
  \<open>unicodePunctuation\<close> and \<open>unicodeWhitespace\<close> are imported from
  \<open>micromark-util-character\<close>; they are parameters here. Their argument is what
  \<open>charCodeAt\<close> returned.
\<close>

record character_util =
  unicodePunctuation :: "nat option \<Rightarrow> bool"
  unicodeWhitespace :: "nat option \<Rightarrow> bool"

definition previous :: "character_util \<Rightarrow> regexp_match \<Rightarrow> bool \<Rightarrow> bool" where
  "previous cu match email =
     (let code = charCodeAt (input match) (int (index match) - 1)
      in (index match = 0 \<or> unicodeWhitespace cu code \<or> unicodePunctuation cu code) \<and>
         (\<not> email \<or> code \<noteq> Some 47))"

text \<open>The code unit in front of a match: what \<open>charCodeAt(match.index - 1)\<close> returns.\<close>

definition code_before :: "regexp_match \<Rightarrow> nat option" where
  "code_before match = charCodeAt (input match) (int (index match) - 1)"

text \<open>
  A pair of classifiers to evaluate examples with: the whitespace and the punctuation
  and symbol characters of ASCII. The theorems hold for every pair of classifiers.
\<close>

definition ascii_util :: character_util where
  "ascii_util =
     \<lparr>unicodePunctuation =
        (\<lambda>code. case code of
                  None \<Rightarrow> False
                | Some c \<Rightarrow> (33 \<le> c \<and> c \<le> 47) \<or> (58 \<le> c \<and> c \<le> 64) \<or>
                            (91 \<le> c \<and> c \<le> 96) \<or> (123 \<le> c \<and> c \<le> 126)),
      unicodeWhitespace =
        (\<lambda>code. case code of None \<Rightarrow> False | Some c \<Rightarrow> c = 32 \<or> (9 \<le> c \<and> c \<le> 13))\<rparr>"

text \<open>
  Modelled from the spec: \<open>unicodeWhitespace\<close> and \<open>unicodePunctuation\<close> are functions of
  \<open>micromark-util-character\<close>, of which \<open>lib/index.js\<close> holds the import only. The
  specification (4.1) names what they decide: Unicode whitespace and Unicode
  punctuation. On the ASCII code units that is fixed: whitespace is tab, line feed,
  vertical tab, form feed, carriage return and space; punctuation is the 32 ASCII
  punctuation characters \<open>!\<close> to \<open>/\<close>, \<open>:\<close> to \<open>@\<close>, \<open>[\<close> to \<open>`\<close> and \<open>{\<close> to \<open>~\<close>. For the
  code units from 128 on, the classification is a parameter. \<open>NaN\<close> is neither.
\<close>

definition ascii_whitespace :: "nat \<Rightarrow> bool" where
  "ascii_whitespace c = (c = 32 \<or> (9 \<le> c \<and> c \<le> 13))"

definition ascii_punctuation :: "nat \<Rightarrow> bool" where
  "ascii_punctuation c =
     ((33 \<le> c \<and> c \<le> 47) \<or> (58 \<le> c \<and> c \<le> 64) \<or>
      (91 \<le> c \<and> c \<le> 96) \<or> (123 \<le> c \<and> c \<le> 126))"

definition unicode_util :: "(nat \<Rightarrow> bool) \<Rightarrow> (nat \<Rightarrow> bool) \<Rightarrow> character_util" where
  "unicode_util whitespace punctuation =
     \<lparr>unicodePunctuation =
        (\<lambda>code. case code of
                  None \<Rightarrow> False
                | Some c \<Rightarrow> if c < 128 then ascii_punctuation c else punctuation c),
      unicodeWhitespace =
        (\<lambda>code. case code of
                  None \<Rightarrow> False
                | Some c \<Rightarrow> if c < 128 then ascii_whitespace c else whitespace c)\<rparr>"

section \<open>The handlers\<close>

text \<open>\<open>/^w/i.test(protocol)\<close>.\<close>

definition test_w :: "jsstring \<Rightarrow> bool" where
  "test_w protocol = (case protocol of [] \<Rightarrow> False | c # _ \<Rightarrow> c = 119 \<or> c = 87)"

text \<open>
  \<open>findUrl\<close>. The call \<open>previous(match)\<close> leaves \<open>email\<close> undefined, which is falsy.
  \<open>!parts[0]\<close> holds of the empty string; \<open>parts[1]\<close> is truthy when it is a string that
  is not empty.
\<close>

definition findUrl ::
  "character_util \<Rightarrow> jsstring \<Rightarrow> jsstring \<Rightarrow> jsstring \<Rightarrow> jsstring \<Rightarrow> regexp_match \<Rightarrow> replacement"
where
  "findUrl cu whole protocol0 domain0 path match =
     (if \<not> previous cu match False then NoMatch
      else
        let www = test_w protocol0;
            domain = (if www then protocol0 @ domain0 else domain0);
            protocol = (if www then [] else protocol0);
            prefix = (if www then js ''http://'' else [])
        in if \<not> isCorrectDomain domain then NoMatch
           else
             let parts = splitUrl (domain @ path)
             in if fst parts = [] then NoMatch
                else
                  let result = Link None (prefix @ protocol @ fst parts)
                                 [Text (protocol @ fst parts)]
                  in (case snd parts of
                        None \<Rightarrow> One result
                      | Some t \<Rightarrow> if t \<noteq> [] then Many [result, Text t] else One result))"

text \<open>
  The text node that \<open>findUrl\<close> returns behind the link: none when the trimmed part is
  undefined or empty.
\<close>

definition trailing_text :: "jsstring option \<Rightarrow> node list" where
  "trailing_text trimmed =
     (case trimmed of None \<Rightarrow> [] | Some t \<Rightarrow> if t \<noteq> [] then [Text t] else [])"

text \<open>\<open>/[-\d_]$/.test(label)\<close>.\<close>

definition test_label_end :: "jsstring \<Rightarrow> bool" where
  "test_label_end label =
     (label \<noteq> [] \<and> (last label = 45 \<or> digit (last label) \<or> last label = 95))"

definition buildFindCommunity ::
  "character_util \<Rightarrow> jsstring \<Rightarrow> jsstring \<Rightarrow>
     jsstring \<Rightarrow> jsstring \<Rightarrow> jsstring \<Rightarrow> regexp_match \<Rightarrow> replacement"
where
  "buildFindCommunity cu connectedInstance prefix whole atext label match =
     (if \<not> previous cu match True \<or> test_label_end label then NoMatch
      else
        let communityName = slice_from atext (int (length prefix));
            server = label
        in One (Link None
                  (js ''https://'' @ connectedInstance @ js ''/c/'' @ communityName @
                     js ''@'' @ server)
                  [Text (prefix @ communityName @ js ''@'' @ server)]))"

definition buildFindUser ::
  "character_util \<Rightarrow> jsstring \<Rightarrow> jsstring \<Rightarrow>
     jsstring \<Rightarrow> jsstring \<Rightarrow> jsstring \<Rightarrow> regexp_match \<Rightarrow> replacement"
where
  "buildFindUser cu connectedInstance prefix whole atext label match =
     (if \<not> previous cu match True \<or> test_label_end label then NoMatch
      else
        let userName = slice_from atext (int (length prefix));
            server = label
        in One (Link None
                  (js ''https://'' @ connectedInstance @ js ''/u/'' @ userName @
                     js ''@'' @ server)
                  [Text (prefix @ userName @ js ''@'' @ server)]))"

definition findEmail ::
  "character_util \<Rightarrow> jsstring \<Rightarrow> jsstring \<Rightarrow> jsstring \<Rightarrow> regexp_match \<Rightarrow> replacement"
where
  "findEmail cu whole atext label match =
     (if \<not> previous cu match True \<or> test_label_end label then NoMatch
      else
        let code = charCodeAt (input match) (int (index match) - 1)
        in if code = Some 33 \<or> code = Some 64 then NoMatch
           else One (Link None (js ''mailto:'' @ atext @ js ''@'' @ label)
                       [Text (atext @ js ''@'' @ label)]))"

section \<open>The regular expressions of the pattern table\<close>

text \<open>
  Each expression is given as the function that tries it at the start of a text (the
  input from the position under trial on): the whole match and the captures, when it
  matches there. No expression looks behind, so the text from the position on decides.

  The classes are \<open>[-.\w]\<close> (domain), \<open>[^ \t\r\n]\<close> (path), \<open>[-.\w+]\<close> (local part) and
  \<open>[-\w]\<close> (label). Each greedy run below is followed in its expression by a character
  outside its class, by the end of the expression or by a run that may be empty, so
  giving characters back never turns a failure into a match: the run taken is the
  longest one.
\<close>

definition domain_char :: "nat \<Rightarrow> bool" where
  "domain_char c = (c = 45 \<or> c = 46 \<or> word_char c)"

definition path_char :: "nat \<Rightarrow> bool" where
  "path_char c = (c \<noteq> 32 \<and> c \<noteq> 9 \<and> c \<noteq> 13 \<and> c \<noteq> 10)"

definition atext_char :: "nat \<Rightarrow> bool" where
  "atext_char c = (c = 45 \<or> c = 46 \<or> word_char c \<or> c = 43)"

definition label_char :: "nat \<Rightarrow> bool" where
  "label_char c = (c = 45 \<or> word_char c)"

text \<open>
  The \<open>i\<close> flag (without \<open>u\<close>) compares characters after mapping them to upper case,
  and never lets a character from outside ASCII stand for an ASCII one. The literals
  and classes of the first expression are ASCII, so only \<open>a\<close> to \<open>z\<close> need mapping;
  the classes \<open>[-.\w]\<close> and \<open>[^ \t\r\n]\<close> are closed under it.
\<close>

definition canonicalize :: "nat \<Rightarrow> nat" where
  "canonicalize c = (if 97 \<le> c \<and> c \<le> 122 then c - 32 else c)"

definition starts_with :: "jsstring \<Rightarrow> jsstring \<Rightarrow> bool" where
  "starts_with lit s = (take (length lit) s = lit)"

definition starts_with_ci :: "jsstring \<Rightarrow> jsstring \<Rightarrow> bool" where
  "starts_with_ci lit s =
     (length lit \<le> length s \<and>
      map canonicalize (take (length lit) s) = map canonicalize lit)"

text \<open>The first group of the first expression: \<open>(https?:\/\/|www(?=\.))\<close>.\<close>

definition protocol_group :: "jsstring \<Rightarrow> jsstring option" where
  "protocol_group s =
     (if starts_with_ci (js ''https://'') s then Some (take 8 s)
      else if starts_with_ci (js ''http://'') s then Some (take 7 s)
      else if starts_with_ci (js ''www'') s \<and> charCodeAt s 3 = Some 46 then Some (take 3 s)
      else None)"

text \<open>
  \<open>/(https?:\/\/|www(?=\.))([-.\w]+)([^ \t\r\n]*)/gi\<close>: the whole match, the protocol,
  the domain and the path.
\<close>

definition url_regex :: "jsstring \<Rightarrow> (jsstring \<times> jsstring \<times> jsstring \<times> jsstring) option" where
  "url_regex s =
     (case protocol_group s of
        None \<Rightarrow> None
      | Some protocol \<Rightarrow>
          (let rest = drop (length protocol) s;
               domain = takeWhile domain_char rest;
               path = takeWhile path_char (drop (length domain) rest)
           in if domain = [] then None
              else Some (protocol @ domain @ path, protocol, domain, path)))"

text \<open>\<open>(?:\.[-\w]+)*\<close>: the text it takes.\<close>

function label_groups :: "jsstring \<Rightarrow> jsstring" where
  "label_groups [] = []"
| "label_groups (c # cs) =
     (if c = 46 \<and> takeWhile label_char cs \<noteq> []
      then c # takeWhile label_char cs @ label_groups (dropWhile label_char cs)
      else [])"
  by pat_completeness auto
termination
  by (relation "measure length") (auto simp: length_dropWhile_le less_Suc_eq_le)

text \<open>\<open>([-\w]+(?:\.[-\w]+)+)\<close>: the second group of the other five expressions.\<close>

definition label_group :: "jsstring \<Rightarrow> jsstring option" where
  "label_group s =
     (let first = takeWhile label_char s;
          more = label_groups (dropWhile label_char s)
      in if first = [] \<or> more = [] then None else Some (first @ more))"

text \<open>
  \<open>/(P[-.\w+]+)@([-\w]+(?:\.[-\w]+)+)/g\<close> for a literal \<open>P\<close>, which is \<open>!\<close>, \<open>\/c\/\<close>,
  \<open>@\<close>, \<open>\/u\/\<close> or nothing: the whole match and the two captures.
\<close>

definition mention_regex :: "jsstring \<Rightarrow> jsstring \<Rightarrow> (jsstring \<times> jsstring \<times> jsstring) option" where
  "mention_regex P s =
     (if \<not> starts_with P s then None
      else
        let rest = drop (length P) s;
            name = takeWhile atext_char rest
        in if name = [] then None
           else (case dropWhile atext_char rest of
                   [] \<Rightarrow> None
                 | c # cs \<Rightarrow>
                     if c \<noteq> 64 then None
                     else (case label_group cs of
                             None \<Rightarrow> None
                           | Some label \<Rightarrow>
                               Some (P @ name @ [64] @ label, P @ name, label))))"

section \<open>The transform\<close>

text \<open>
  An entry of the pattern table, applied at a position of the value of a text node:
  nothing when the expression does not match there, else the length of the match and
  what the handler returned for it.
\<close>

type_synonym entry = "jsstring \<Rightarrow> nat \<Rightarrow> (nat \<times> replacement) option"

definition url_entry :: "character_util \<Rightarrow> entry" where
  "url_entry cu v p =
     (case url_regex (drop p v) of
        None \<Rightarrow> None
      | Some (whole, protocol, domain, path) \<Rightarrow>
          Some (length whole, findUrl cu whole protocol domain path \<lparr>index = p, input = v\<rparr>))"

definition mention_entry ::
  "jsstring \<Rightarrow> (jsstring \<Rightarrow> jsstring \<Rightarrow> jsstring \<Rightarrow> regexp_match \<Rightarrow> replacement) \<Rightarrow> entry"
where
  "mention_entry P handler v p =
     (case mention_regex P (drop p v) of
        None \<Rightarrow> None
      | Some (whole, atext, label) \<Rightarrow>
          Some (length whole, handler whole atext label \<lparr>index = p, input = v\<rparr>))"

text \<open>The table of \<open>transformGfmAutolinkLiterals\<close>, in its order.\<close>

definition pattern_table :: "character_util \<Rightarrow> jsstring \<Rightarrow> entry list" where
  "pattern_table cu connectedInstance =
     (let findCommunityShebang = buildFindCommunity cu connectedInstance (js ''!'');
          findCommunityRelativeLink = buildFindCommunity cu connectedInstance (js ''/c/'');
          findUser = buildFindUser cu connectedInstance (js ''@'');
          findUserRelativeLink = buildFindUser cu connectedInstance (js ''/u/'')
      in [url_entry cu,
          mention_entry (js ''!'') findCommunityShebang,
          mention_entry (js ''/c/'') findCommunityRelativeLink,
          mention_entry (js ''@'') findUser,
          mention_entry (js ''/u/'') findUserRelativeLink,
          mention_entry [] (findEmail cu)])"

text \<open>
  Modelled from the spec: \<open>findAndReplace\<close> is the tree-walking replacement utility, an
  external collaborator of which \<open>lib/index.js\<close> holds the call only. As the
  specification describes it (4.4, 4.5 and 9): the entries of the table are applied one
  after the other, each over all text of the tree outside \<open>link\<close> and \<open>linkReference\<close>
  nodes; in a text node the expression is matched from left to right; a match that its
  handler accepts is replaced by the nodes the handler returns, and matching goes on
  behind it; a match that its handler refuses ("no match") leaves the text as it is,
  and matching goes on one character further; text between and around the replaced
  matches stays as text nodes; what a handler returned is not scanned again by the
  same entry.

  \<open>scan\<close> is the loop over the matches in the value \<open>v\<close> of one text node: \<open>p\<close> is the
  position from which the expression is tried, \<open>start\<close> the end of the last replaced
  match, \<open>nodes\<close> the nodes produced so far. No expression of the table matches the
  empty string; the loop ends at a match of length 0.
\<close>

fun nodes_of :: "replacement \<Rightarrow> node list" where
  "nodes_of NoMatch = []"
| "nodes_of (One n) = [n]"
| "nodes_of (Many ns) = ns"

function scan :: "entry \<Rightarrow> jsstring \<Rightarrow> nat \<Rightarrow> nat \<Rightarrow> node list \<Rightarrow> bool \<Rightarrow> node list \<times> nat \<times> bool" where
  "scan e v p start nodes change =
     (if length v \<le> p then (nodes, start, change)
      else
        (case e v p of
           None \<Rightarrow> scan e v (Suc p) start nodes change
         | Some (len, r) \<Rightarrow>
             if r = NoMatch then scan e v (Suc p) start nodes change
             else if len = 0 then (nodes, start, change)
             else
               scan e v (p + len) (p + len)
                 (nodes @ (if start \<noteq> p then [Text (slice v (int start) (int p))] else []) @
                    nodes_of r)
                 True))"
  by pat_completeness auto
termination
  by (relation "measure (\<lambda>(e, v, p, start, nodes, change). length v - p)") auto

definition replace_in_text :: "entry \<Rightarrow> jsstring \<Rightarrow> node list" where
  "replace_in_text e v =
     (case scan e v 0 0 [] False of
        (nodes, start, change) \<Rightarrow>
          if change
          then nodes @ (if start < length v then [Text (slice_from v (int start))] else [])
          else [Text v])"

fun visit :: "entry \<Rightarrow> node \<Rightarrow> node list" where
  "visit e (Text v) = replace_in_text e v"
| "visit e (Link title u children) = [Link title u children]"
| "visit e (LinkReference children) = [LinkReference children]"
| "visit e (Parent children) = [Parent (concat (map (visit e) children))]"
| "visit e Leaf = [Leaf]"

text \<open>The root: a text node is replaced in its parent, so not when it is the root.\<close>

definition visit_root :: "entry \<Rightarrow> node \<Rightarrow> node" where
  "visit_root e tree =
     (case tree of
        Parent children \<Rightarrow> Parent (concat (map (visit e) children))
      | _ \<Rightarrow> tree)"

definition findAndReplace :: "node \<Rightarrow> entry list \<Rightarrow> node" where
  "findAndReplace tree table = fold visit_root table tree"

text \<open>
  \<open>buildTransformGfmAutolinkLiterals(connectedInstance)\<close> returns the transform, a
  function of the tree.
\<close>

definition buildTransformGfmAutolinkLiterals :: "character_util \<Rightarrow> jsstring \<Rightarrow> node \<Rightarrow> node" where
  "buildTransformGfmAutolinkLiterals cu connectedInstance tree =
     findAndReplace tree (pattern_table cu connectedInstance)"

section \<open>The extension for serialization\<close>

text \<open>
  An entry of \<open>unsafe\<close>. \<open>before\<close> and \<open>after\<close> hold the source text of a regular
  expression, as the strings of \<open>lib/index.js\<close> do.
\<close>

record unsafe =
  character :: jsstring
  before :: jsstring
  after :: jsstring
  unsafe_inConstruct :: jsstring
  unsafe_notInConstruct :: "jsstring list"

definition inConstruct :: jsstring where
  "inConstruct = js ''phrasing''"

definition notInConstruct :: "jsstring list" where
  "notInConstruct = [js ''autolink'', js ''link'', js ''image'', js ''label'']"

text \<open>The one-character string that holds a backslash (code unit 92).\<close>

definition backslash :: jsstring where
  "backslash = [92]"

text \<open>
  The object that \<open>gfmAutolinkLiteralToMarkdown\<close> returns has the one field \<open>unsafe\<close>;
  this is its value.
\<close>

definition gfmAutolinkLiteralToMarkdown :: "unsafe list" where
  "gfmAutolinkLiteralToMarkdown =
     [\<lparr>character = js ''@'',
        before = js ''[+'' @ backslash @ js ''-.'' @ backslash @ js ''w]'',
        after = js ''['' @ backslash @ js ''-.'' @ backslash @ js ''w]'',
        unsafe_inConstruct = inConstruct, unsafe_notInConstruct = notInConstruct\<rparr>,
      \<lparr>character = js ''.'',
        before = js ''[Ww]'',
        after = js ''['' @ backslash @ js ''-.'' @ backslash @ js ''w]'',
        unsafe_inConstruct = inConstruct, unsafe_notInConstruct = notInConstruct\<rparr>,
      \<lparr>character = js '':'',
        before = js ''[ps]'',
        after = backslash @ js ''/'',
        unsafe_inConstruct = inConstruct, unsafe_notInConstruct = notInConstruct\<rparr>]"

section \<open>The domain validator agrees with its description\<close>

lemma last_two_nth:
  assumes "2 \<le> length xs"
  shows "last_two xs = [xs ! (length xs - 2), xs ! (length xs - 1)]"
proof -
  have a: "drop (length xs - 2) xs = xs ! (length xs - 2) # drop (Suc (length xs - 2)) xs"
    using assms by (intro Cons_nth_drop_Suc [symmetric]) simp
  have b: "Suc (length xs - 2) = length xs - 1"
    using assms by simp
  have c: "drop (length xs - 1) xs = xs ! (length xs - 1) # drop (Suc (length xs - 1)) xs"
    using assms by (intro Cons_nth_drop_Suc [symmetric]) auto
  show ?thesis
    using a b c assms by (simp add: last_two_def)
qed

lemma at_last:
  "2 \<le> length xs \<Longrightarrow> at xs (int (length xs) - 1) = Some (xs ! (length xs - 1))"
  by (auto simp: at_def nat_diff_distrib')

lemma at_last_but_one:
  "2 \<le> length xs \<Longrightarrow> at xs (int (length xs) - 2) = Some (xs ! (length xs - 2))"
  by (simp add: at_def nat_diff_distrib')

lemma bad_part_nonempty:
  "part \<noteq> [] \<Longrightarrow> bad_part (Some part) = (test_underscore part \<or> \<not> test_alnum part)"
  by (simp add: bad_part_def)

lemma isCorrectDomain_parts:
  assumes "2 \<le> length parts" and "\<not> list_ex (\<lambda>part. part = []) parts"
  shows "(bad_part (at parts (int (length parts) - 1)) \<or>
          bad_part (at parts (int (length parts) - 2))) =
         list_ex (\<lambda>l. test_underscore l \<or> \<not> test_alnum l) (last_two parts)"
proof -
  have n1: "parts ! (length parts - 1) \<noteq> []" and n2: "parts ! (length parts - 2) \<noteq> []"
    using assms by (auto simp: list_ex_iff in_set_conv_nth)
  show ?thesis
    using assms(1) n1 n2
    by (auto simp: at_last at_last_but_one bad_part_nonempty last_two_nth)
qed

text \<open>
  C3. For every string \<open>d\<close>, \<open>isCorrectDomain d\<close> is false exactly when splitting \<open>d\<close> on
  \<open>.\<close> gives fewer than two labels, or some label is empty, or one of the last two
  labels contains an underscore or contains no alphanumeric character; otherwise it is
  true.
\<close>

theorem isCorrectDomain_iff_spec:
  "(isCorrectDomain d = False \<longleftrightarrow> spec_rejects_domain d) \<and>
   (isCorrectDomain d = True \<longleftrightarrow> \<not> spec_rejects_domain d)"
proof (cases "2 \<le> length (split d 46) \<and> \<not> list_ex (\<lambda>part. part = []) (split d 46)")
  case True
  then show ?thesis
    using isCorrectDomain_parts [of "split d 46"]
    by (simp add: isCorrectDomain_def spec_rejects_domain_def Let_def)
next
  case False
  then show ?thesis
    by (auto simp: isCorrectDomain_def spec_rejects_domain_def Let_def)
qed

theorem isCorrectDomain_iff_spec_witness:
  "isCorrectDomain (js ''a..b'') = False \<and> spec_rejects_domain (js ''a..b'') \<and>
   isCorrectDomain (js ''example.org'') = True \<and> \<not> spec_rejects_domain (js ''example.org'')"
proof -
  have "isCorrectDomain (js ''a..b'') = False" and "isCorrectDomain (js ''example.org'') = True"
    by code_simp+
  then show ?thesis
    using isCorrectDomain_iff_spec [of "js ''a..b''"]
      isCorrectDomain_iff_spec [of "js ''example.org''"]
    by simp
qed

section \<open>The trailing-punctuation splitter\<close>

declare splitUrl_loop.simps [simp del]

lemma slice_rejoin: "slice t 0 k @ slice_from t k = t"
  by (simp add: slice_def slice_from_def rel_index_def)

lemma slice_take: "slice s 0 (int n) = take n s"
  by (cases "n \<le> length s") (simp_all add: slice_def rel_index_def min_def)

lemma slice_prefix: "0 \<le> k \<Longrightarrow> slice t 0 k = take (nat k) t"
  by (cases "nat k \<le> length t") (simp_all add: slice_def rel_index_def min_def)

lemma slice_from_drop: "0 \<le> k \<Longrightarrow> slice_from t k = drop (nat k) t"
  by (cases "nat k \<le> length t") (simp_all add: slice_from_def rel_index_def min_def)

lemma trailExec_from_Some:
  "trailExec_from i s = Some (j, t) \<Longrightarrow>
     i \<le> j \<and> take (j - i) s @ t = s \<and> list_all trail_char t \<and> t \<noteq> []"
proof (induction s arbitrary: i)
  case Nil
  then show ?case by simp
next
  case (Cons c cs)
  show ?case
  proof (cases "list_all trail_char (c # cs)")
    case True
    with Cons.prems show ?thesis by auto
  next
    case False
    with Cons.prems have "trailExec_from (Suc i) cs = Some (j, t)"
      by (simp split: if_splits)
    from Cons.IH [OF this] have ih: "Suc i \<le> j" "take (j - Suc i) cs @ t = cs"
      "list_all trail_char t" "t \<noteq> []"
      by simp_all
    from ih(1) have "j - i = Suc (j - Suc i)" by simp
    with ih show ?thesis by simp
  qed
qed

lemma trailExec_Some:
  "trailExec s = Some (j, t) \<Longrightarrow> take j s @ t = s \<and> list_all trail_char t \<and> t \<noteq> []"
  using trailExec_from_Some [of 0 s j t] by (simp add: trailExec_def)

lemma loop_body_concat: "url (loop_body s) @ trail (loop_body s) = url s @ trail s"
  by (simp add: loop_body_def Let_def slice_rejoin)

lemma loop_concat:
  "url (splitUrl_loop n s) @ trail (splitUrl_loop n s) = url s @ trail s"
proof (induction n s rule: splitUrl_loop.induct)
  case (1 n s)
  show ?case
  proof (cases "loop_guard n s")
    case True
    with "1.IH" have "url (splitUrl_loop n s) @ trail (splitUrl_loop n s) =
        url (loop_body s) @ trail (loop_body s)"
      by (subst (1 2) splitUrl_loop.simps) simp
    then show ?thesis by (simp only: loop_body_concat)
  next
    case False
    then show ?thesis by (subst (1 2) splitUrl_loop.simps) simp
  qed
qed

lemma loop_body_trail_chars:
  "list_all P (trail s) \<Longrightarrow> list_all P (trail (loop_body s))"
  by (auto simp: loop_body_def Let_def slice_from_def list_all_iff dest: in_set_dropD)

lemma loop_trail_chars:
  "list_all P (trail s) \<Longrightarrow> list_all P (trail (splitUrl_loop n s))"
proof (induction n s rule: splitUrl_loop.induct)
  case (1 n s)
  show ?case
  proof (cases "loop_guard n s")
    case True
    with "1.IH" "1.prems" loop_body_trail_chars [of P s] show ?thesis
      by (subst splitUrl_loop.simps) simp
  next
    case False
    with "1.prems" show ?thesis by (subst splitUrl_loop.simps) simp
  qed
qed

lemma trail_char_codes:
  "list_all trail_char t \<Longrightarrow>
     set t \<subseteq> {33, 34, 38, 39, 41, 44, 46, 58, 59, 60, 62, 63, 93, 125}"
  by (auto simp: list_all_iff trail_char_def)

text \<open>
  C4. For every string \<open>s\<close>, if \<open>splitUrl s\<close> is \<open>(kept, trimmed)\<close>, then \<open>kept\<close> followed by
  \<open>trimmed\<close> (by the empty string when \<open>trimmed\<close> is undefined) is \<open>s\<close>, and every
  character of \<open>trimmed\<close> is one of
  \<open>!\<close> \<open>"\<close> \<open>&\<close> \<open>'\<close> \<open>)\<close> \<open>,\<close> \<open>.\<close> \<open>:\<close> \<open>;\<close> \<open><\<close> \<open>>\<close> \<open>?\<close> \<open>]\<close> \<open>}\<close>
  (code units 33, 34, 38, 39, 41, 44, 46, 58, 59, 60, 62, 63, 93, 125).
\<close>

theorem splitUrl_reconstructs:
  assumes "splitUrl s = (kept, trimmed)"
  shows "kept @ (case trimmed of None \<Rightarrow> [] | Some t \<Rightarrow> t) = s \<and>
         set (case trimmed of None \<Rightarrow> [] | Some t \<Rightarrow> t) \<subseteq>
           {33, 34, 38, 39, 41, 44, 46, 58, 59, 60, 62, 63, 93, 125}"
proof (cases "trailExec s")
  case None
  with assms show ?thesis by (auto simp: splitUrl_def)
next
  case (Some m)
  obtain i t where m: "m = (i, t)" by (cases m)
  let ?s0 = "loop_init s i t"
  let ?r = "splitUrl_loop (ccount (url ?s0) 40) ?s0"
  from Some m assms have k: "kept = url ?r" and tr: "trimmed = Some (trail ?r)"
    by (simp_all add: splitUrl_def Let_def)
  from Some m have e: "take i s @ t = s" and c: "list_all trail_char t"
    using trailExec_Some [of s i t] by simp_all
  have "url ?s0 @ trail ?s0 = s"
    using e by (simp add: loop_init_def Let_def slice_take)
  then have "url ?r @ trail ?r = s"
    by (simp only: loop_concat)
  moreover have "list_all trail_char (trail ?r)"
    using c by (intro loop_trail_chars) (simp add: loop_init_def Let_def)
  ultimately show ?thesis
    using k tr trail_char_codes [of "trail ?r"] by simp
qed

theorem splitUrl_reconstructs_witness:
  "splitUrl (js ''a(b).)'') = (js ''a(b)'', Some (js ''.)'')) \<and>
   js ''a(b)'' @ js ''.)'' = js ''a(b).)'' \<and>
   set (js ''.)'') \<subseteq> {33, 34, 38, 39, 41, 44, 46, 58, 59, 60, 62, 63, 93, 125}"
proof -
  have h: "splitUrl (js ''a(b).)'') = (js ''a(b)'', Some (js ''.)''))"
    by code_simp
  from splitUrl_reconstructs [OF h] h show ?thesis by simp
qed

subsection \<open>Parentheses\<close>

lemma indexOf_range:
  "indexOf t c \<noteq> -1 \<Longrightarrow> 0 \<le> indexOf t c \<and> indexOf t c < int (length t)"
  by (induction t) (auto simp: Let_def split: if_splits)

lemma ccount_append: "ccount (a @ b) c = ccount a c + ccount b c"
  by (simp add: ccount_def)

lemma ccount_take_indexOf:
  "indexOf t c \<noteq> -1 \<Longrightarrow> ccount (take (nat (indexOf t c + 1)) t) c = 1"
proof (induction t)
  case Nil
  then show ?case by simp
next
  case (Cons x xs)
  show ?case
  proof (cases "x = c")
    case True
    then show ?thesis by (simp add: ccount_def)
  next
    case False
    with Cons.prems have n: "indexOf xs c \<noteq> -1"
      by (auto simp: Let_def split: if_splits)
    with indexOf_range [of xs c] have "0 \<le> indexOf xs c" by simp
    then have "nat (indexOf xs c + 1 + 1) = Suc (nat (indexOf xs c + 1))" by simp
    with False n Cons.IH show ?thesis by (simp add: ccount_def Let_def)
  qed
qed

lemma ccount_trail_open: "list_all trail_char t \<Longrightarrow> ccount (take n t) 40 = 0"
  by (auto simp: ccount_def list_all_iff trail_char_def filter_empty_conv dest!: in_set_takeD)

lemma loop_body_inv:
  assumes "loop_inv n c0 s" and "loop_guard n s"
  shows "loop_inv n c0 (loop_body s)"
proof -
  let ?k = "closingParenIndex s + 1"
  from assms have ix: "indexOf (trail s) 41 \<noteq> -1"
    and k: "closingParenIndex s = indexOf (trail s) 41"
    and lt: "closingParens s < n" and cp: "closingParens s = ccount (url s) 41"
    and op: "ccount (url s) 40 = n" and tc: "list_all trail_char (trail s)"
    by (simp_all add: loop_inv_def loop_guard_def)
  from ix k indexOf_range [of "trail s" 41] have k0: "0 \<le> ?k" by simp
  have u: "url (loop_body s) = url s @ take (nat ?k) (trail s)"
    using k0 by (simp add: loop_body_def Let_def slice_prefix)
  have c1: "ccount (take (nat ?k) (trail s)) 41 = 1"
    using ccount_take_indexOf [OF ix] k by simp
  have c2: "ccount (take (nat ?k) (trail s)) 40 = 0"
    using tc by (rule ccount_trail_open)
  have "closingParenIndex (loop_body s) = indexOf (trail (loop_body s)) 41"
    by (simp add: loop_body_def Let_def)
  moreover have "closingParens (loop_body s) = ccount (url (loop_body s)) 41"
    using cp c1 by (simp add: u ccount_append) (simp add: loop_body_def Let_def)
  moreover have "ccount (url (loop_body s)) 40 = n"
    using op c2 by (simp add: u ccount_append)
  moreover have "list_all trail_char (trail (loop_body s))"
    using tc by (rule loop_body_trail_chars)
  moreover have "ccount (url (loop_body s)) 41 \<le> max n c0"
    using cp c1 lt by (simp add: u ccount_append)
  ultimately show ?thesis
    by (simp add: loop_inv_def)
qed

lemma loop_inv_kept:
  "loop_inv n c0 s \<Longrightarrow> loop_inv n c0 (splitUrl_loop n s)"
proof (induction n s rule: splitUrl_loop.induct)
  case (1 n s)
  show ?case
  proof (cases "loop_guard n s")
    case True
    with "1.IH" "1.prems" loop_body_inv [of n c0 s] show ?thesis
      by (subst splitUrl_loop.simps) simp
  next
    case False
    with "1.prems" show ?thesis by (subst splitUrl_loop.simps) simp
  qed
qed

lemma loop_init_inv:
  assumes "trailExec s = Some (i, t)"
  shows "loop_inv (ccount (url (loop_init s i t)) 40) (ccount (untrailed s) 41)
           (loop_init s i t)"
  using assms trailExec_Some [OF assms]
  by (simp add: loop_inv_def loop_init_def Let_def untrailed_def)

lemma splitUrl_closing_max:
  "ccount (fst (splitUrl s)) 41 \<le>
     max (ccount (fst (splitUrl s)) 40) (ccount (untrailed s) 41)"
proof (cases "trailExec s")
  case None
  then show ?thesis by (simp add: splitUrl_def untrailed_def)
next
  case (Some m)
  obtain i t where m: "m = (i, t)" by (cases m)
  let ?s0 = "loop_init s i t"
  let ?r = "splitUrl_loop (ccount (url ?s0) 40) ?s0"
  from Some m have k: "fst (splitUrl s) = url ?r"
    by (simp add: splitUrl_def Let_def)
  from Some m have "loop_inv (ccount (url ?s0) 40) (ccount (untrailed s) 41) ?r"
    by (intro loop_inv_kept loop_init_inv) simp
  then show ?thesis
    unfolding k by (simp add: loop_inv_def)
qed

lemma splitUrl_unbalanced_head:
  assumes "ccount (untrailed s) 40 \<le> ccount (untrailed s) 41"
  shows "fst (splitUrl s) = untrailed s"
proof (cases "trailExec s")
  case None
  then show ?thesis by (simp add: splitUrl_def untrailed_def)
next
  case (Some m)
  obtain i t where m: "m = (i, t)" by (cases m)
  let ?s0 = "loop_init s i t"
  from Some m have u: "untrailed s = url ?s0"
    by (simp add: untrailed_def loop_init_def Let_def)
  have "closingParens ?s0 = ccount (url ?s0) 41"
    by (simp add: loop_init_def Let_def)
  with assms u have "\<not> loop_guard (ccount (url ?s0) 40) ?s0"
    by (simp add: loop_guard_def)
  then have "splitUrl_loop (ccount (url ?s0) 40) ?s0 = ?s0"
    by (subst splitUrl_loop.simps) simp
  with Some m u show ?thesis
    by (simp add: splitUrl_def Let_def)
qed

text \<open>
  C5, as the specification states it: for every string \<open>s\<close>, the kept part of
  \<open>splitUrl s\<close> never contains more \<open>)\<close> than \<open>(\<close>. It fails for \<open>example.org/a)b.\<close>
  (domain and path of \<open>http://example.org/a)b.\<close>), whose kept part is
  \<open>example.org/a)b\<close>: a \<open>)\<close> in front of the trailing run is never removed.
\<close>

theorem splitUrl_kept_balance_counterexample:
  "\<not> ccount (fst (splitUrl (js ''example.org/a)b.''))) 41 \<le>
     ccount (fst (splitUrl (js ''example.org/a)b.''))) 40"
  by code_simp

text \<open>
  C5, amended: for every string \<open>s\<close>, the kept part of \<open>splitUrl s\<close> contains no more
  \<open>)\<close> than \<open>(\<close>, or it is \<open>s\<close> without its trailing run of closing punctuation (no
  \<open>)\<close> of the run was moved back into it).
\<close>

theorem splitUrl_kept_balance:
  "ccount (fst (splitUrl s)) 41 \<le> ccount (fst (splitUrl s)) 40 \<or>
   fst (splitUrl s) = untrailed s"
proof (cases "ccount (untrailed s) 40 \<le> ccount (untrailed s) 41")
  case True
  then show ?thesis by (simp add: splitUrl_unbalanced_head)
next
  case False
  moreover have "ccount (fst (splitUrl s)) 41 \<le>
      max (ccount (fst (splitUrl s)) 40) (ccount (untrailed s) 41)"
    by (rule splitUrl_closing_max)
  moreover have "ccount (untrailed s) 40 \<le> ccount (fst (splitUrl s)) 40"
  proof -
    obtain kept trimmed where sp: "splitUrl s = (kept, trimmed)"
      by (cases "splitUrl s")
    show ?thesis
    proof (cases "trailExec s")
      case None
      then show ?thesis by (simp add: splitUrl_def untrailed_def)
    next
      case (Some m)
      obtain i t where m: "m = (i, t)" by (cases m)
      let ?s0 = "loop_init s i t"
      have "loop_inv (ccount (url ?s0) 40) (ccount (untrailed s) 41)
              (splitUrl_loop (ccount (url ?s0) 40) ?s0)"
        using Some m by (intro loop_inv_kept loop_init_inv) simp
      then have "ccount (url (splitUrl_loop (ccount (url ?s0) 40) ?s0)) 40 =
          ccount (url ?s0) 40"
        by (simp add: loop_inv_def)
      with Some m show ?thesis
        by (simp add: splitUrl_def untrailed_def loop_init_def Let_def)
    qed
  qed
  ultimately show ?thesis by simp
qed

subsection \<open>Termination\<close>

lemma loop_body_shrinks:
  assumes "loop_guard n s" and "closingParenIndex s = indexOf (trail s) 41"
  shows "length (trail (loop_body s)) < length (trail s)"
proof -
  from assms have ix: "indexOf (trail s) 41 \<noteq> -1"
    by (simp add: loop_guard_def)
  from indexOf_range [OF ix] assms(2)
  have r: "0 \<le> closingParenIndex s" "closingParenIndex s < int (length (trail s))"
    by simp_all
  then have "trail (loop_body s) = drop (nat (closingParenIndex s + 1)) (trail s)"
    by (simp add: loop_body_def Let_def slice_from_drop)
  with r show ?thesis by simp
qed

lemma loop_fuel_enough:
  "closingParenIndex s = indexOf (trail s) 41 \<Longrightarrow> length (trail s) \<le> k \<Longrightarrow>
     loop_fuel k n s = Some (splitUrl_loop n s)"
proof (induction k arbitrary: s)
  case 0
  then have "indexOf (trail s) 41 = -1" by simp
  with 0 have "\<not> loop_guard n s" by (simp add: loop_guard_def)
  then show ?case by (subst splitUrl_loop.simps) simp
next
  case (Suc k)
  show ?case
  proof (cases "loop_guard n s")
    case True
    from loop_body_shrinks [OF True Suc.prems(1)] Suc.prems(2)
    have "length (trail (loop_body s)) \<le> k" by simp
    moreover have "closingParenIndex (loop_body s) = indexOf (trail (loop_body s)) 41"
      by (simp add: loop_body_def Let_def)
    ultimately have "loop_fuel k n (loop_body s) = Some (splitUrl_loop n (loop_body s))"
      by (intro Suc.IH)
    with True show ?thesis by (subst splitUrl_loop.simps) simp
  next
    case False
    then show ?thesis by (subst splitUrl_loop.simps) simp
  qed
qed

lemma splitUrl_fuel_enough:
  assumes "length (trail_run s) \<le> k"
  shows "splitUrl_fuel k s = Some (splitUrl s)"
proof (cases "trailExec s")
  case None
  then show ?thesis by (simp add: splitUrl_fuel_def splitUrl_def)
next
  case (Some m)
  obtain i t where m: "m = (i, t)" by (cases m)
  let ?s0 = "loop_init s i t"
  from Some m assms have "length (trail ?s0) \<le> k"
    by (simp add: trail_run_def loop_init_def Let_def)
  moreover have "closingParenIndex ?s0 = indexOf (trail ?s0) 41"
    by (simp add: loop_init_def Let_def)
  ultimately have "loop_fuel k (ccount (url ?s0) 40) ?s0 =
      Some (splitUrl_loop (ccount (url ?s0) 40) ?s0)"
    by (intro loop_fuel_enough)
  with Some m show ?thesis
    by (simp add: splitUrl_fuel_def splitUrl_def Let_def)
qed

text \<open>
  C8. \<open>splitUrl\<close> terminates for every input string: run with a loop that is cut off
  after as many iterations as the trailing run has characters, it returns, and returns
  what \<open>splitUrl\<close> returns. Each iteration of the loop (entered with \<open>closingParenIndex\<close>
  the index of the first \<open>)\<close> of \<open>trail\<close>, as the source sets it before the loop and at
  the end of each iteration) makes \<open>trail\<close> strictly shorter.
\<close>

theorem splitUrl_terminates:
  "splitUrl_fuel (length (trail_run url0)) url0 = Some (splitUrl url0) \<and>
   (loop_guard openingParens s \<and> closingParenIndex s = indexOf (trail s) 41 \<longrightarrow>
      length (trail (loop_body s)) < length (trail s) \<and>
      closingParenIndex (loop_body s) = indexOf (trail (loop_body s)) 41)"
proof -
  have "splitUrl_fuel (length (trail_run url0)) url0 = Some (splitUrl url0)"
    by (rule splitUrl_fuel_enough) simp
  moreover have "closingParenIndex (loop_body s) = indexOf (trail (loop_body s)) 41"
    by (simp add: loop_body_def Let_def)
  moreover have "length (trail (loop_body s)) < length (trail s)"
    if "loop_guard openingParens s" and "closingParenIndex s = indexOf (trail s) 41"
    using that by (rule loop_body_shrinks)
  ultimately show ?thesis by blast
qed

theorem splitUrl_terminates_witness:
  "trail_run (js ''a(b).)'') = js '').)'' \<and>
   splitUrl_fuel 3 (js ''a(b).)'') = Some (js ''a(b)'', Some (js ''.)'')) \<and>
   loop_guard 1 (loop_init (js ''a(b).)'') 3 (js '').)'')) \<and>
   length (trail (loop_body (loop_init (js ''a(b).)'') 3 (js '').)'')))) < 3"
proof -
  let ?s = "loop_init (js ''a(b).)'') 3 (js '').)'')"
  have r: "trail_run (js ''a(b).)'') = js '').)''"
    by code_simp
  have v: "splitUrl (js ''a(b).)'') = (js ''a(b)'', Some (js ''.)''))"
    by code_simp
  have g: "loop_guard 1 ?s"
    by code_simp
  have i: "closingParenIndex ?s = indexOf (trail ?s) 41"
    by (simp add: loop_init_def Let_def)
  have l: "length (trail ?s) = 3" and l': "length (js '').)'') = 3"
    by (simp_all add: loop_init_def Let_def js_def)
  from splitUrl_terminates [of "js ''a(b).)''" 1 ?s] r v g i l l' show ?thesis
    by simp
qed

section \<open>The boundary predicate\<close>

lemma previous_unfold:
  "previous cu match email \<longleftrightarrow>
     (index match = 0 \<or> unicodeWhitespace cu (code_before match) \<or>
        unicodePunctuation cu (code_before match)) \<and>
     (email \<longrightarrow> code_before match \<noteq> Some 47)"
  by (auto simp: previous_def code_before_def Let_def)

lemma not_previous:
  assumes "index match \<noteq> 0"
    and "\<not> unicodeWhitespace cu (code_before match)"
    and "\<not> unicodePunctuation cu (code_before match)"
  shows "\<not> previous cu match email"
  using assms by (simp add: previous_unfold)

lemma previous_at_start: "index match = 0 \<Longrightarrow> previous cu match email"
  by (simp add: previous_def charCodeAt_def Let_def)

lemma code_before_index: "code_before match = Some c \<Longrightarrow> index match \<noteq> 0"
  by (auto simp: code_before_def charCodeAt_def split: if_splits)

lemma letter_digit_plain:
  assumes "alpha c \<or> digit c"
  shows "\<not> unicodeWhitespace (unicode_util whitespace punctuation) (Some c)"
    and "\<not> unicodePunctuation (unicode_util whitespace punctuation) (Some c)"
  using assms
  by (auto simp: unicode_util_def alpha_def digit_def ascii_whitespace_def ascii_punctuation_def)

lemma handlers_refuse:
  assumes "\<not> previous cu match False" and "\<not> previous cu match True"
  shows "findUrl cu whole protocol domain path match = NoMatch \<and>
         buildFindCommunity cu connectedInstance prefix whole atext label match = NoMatch \<and>
         buildFindUser cu connectedInstance prefix whole atext label match = NoMatch \<and>
         findEmail cu whole atext label match = NoMatch"
  using assms
  by (simp add: findUrl_def buildFindCommunity_def buildFindUser_def findEmail_def)

text \<open>
  C7, as the specification states it: a candidate match whose immediately preceding
  character is a letter or digit is never converted to a link by any handler. It fails
  for the text \<open>!a@b.co+c@d.ef\<close>: the entry for \<open>!\<close> mentions replaces \<open>!a@b.co\<close> by a
  link and leaves \<open>+c@d.ef\<close> as a text node of its own; there the email expression
  matches at index 0, the boundary predicate holds, and \<open>findEmail\<close> returns a link for
  \<open>+c@d.ef\<close>, which stands right behind the letter \<open>o\<close> in the text.
\<close>

theorem boundary_rejection_counterexample:
  "drop 7 (js ''!a@b.co+c@d.ef'') = js ''+c@d.ef'' \<and>
   code_before \<lparr>index = 7, input = js ''!a@b.co+c@d.ef''\<rparr> = Some 111 \<and>
   alpha 111 \<and>
   visit_root
       (mention_entry (js ''!'') (buildFindCommunity ascii_util (js ''lemmy.world'') (js ''!'')))
       (Parent [Text (js ''!a@b.co+c@d.ef'')]) =
     Parent [Link None (js ''https://lemmy.world/c/a@b.co'') [Text (js ''!a@b.co'')],
             Text (js ''+c@d.ef'')] \<and>
   mention_regex [] (js ''+c@d.ef'') = Some (js ''+c@d.ef'', js ''+c'', js ''d.ef'') \<and>
   findEmail ascii_util (js ''+c@d.ef'') (js ''+c'') (js ''d.ef'')
       \<lparr>index = 0, input = js ''+c@d.ef''\<rparr> \<noteq> NoMatch \<and>
   findEmail ascii_util (js ''+c@d.ef'') (js ''+c'') (js ''d.ef'')
       \<lparr>index = 0, input = js ''+c@d.ef''\<rparr> =
     One (Link None (js ''mailto:+c@d.ef'') [Text (js ''+c@d.ef'')]) \<and>
   buildTransformGfmAutolinkLiterals ascii_util (js ''lemmy.world'')
       (Parent [Text (js ''!a@b.co+c@d.ef'')]) =
     Parent [Link None (js ''https://lemmy.world/c/a@b.co'') [Text (js ''!a@b.co'')],
             Link None (js ''mailto:+c@d.ef'') [Text (js ''+c@d.ef'')]]"
  by code_simp

text \<open>
  C7, amended: index and preceding character are those of the text node that is
  scanned. The boundary predicate is true exactly when the match index in that node is
  0, or the character in front of the match is Unicode whitespace or Unicode punctuation,
  and, when the slash-forbidding flag is set, that character is not \<open>/\<close>. A match at
  index 0 of a text node passes, whatever stands in front of the node. A candidate match
  whose immediately preceding character in the node is a letter or digit (\<open>A\<close> to \<open>Z\<close>,
  \<open>a\<close> to \<open>z\<close>, \<open>0\<close> to \<open>9\<close>), or any other character that is neither Unicode whitespace
  nor Unicode punctuation, is never converted to a link by any handler.
\<close>

theorem boundary_rejection_in_node:
  "(previous cu match email \<longleftrightarrow>
      (index match = 0 \<or> unicodeWhitespace cu (code_before match) \<or>
         unicodePunctuation cu (code_before match)) \<and>
      (email \<longrightarrow> code_before match \<noteq> Some 47)) \<and>
   (index match = 0 \<longrightarrow> previous cu match email) \<and>
   (index match \<noteq> 0 \<and> \<not> unicodeWhitespace cu (code_before match) \<and>
      \<not> unicodePunctuation cu (code_before match) \<longrightarrow>
      findUrl cu whole protocol domain path match = NoMatch \<and>
      buildFindCommunity cu connectedInstance prefix whole atext label match = NoMatch \<and>
      buildFindUser cu connectedInstance prefix whole atext label match = NoMatch \<and>
      findEmail cu whole atext label match = NoMatch) \<and>
   (code_before match = Some c \<and> (alpha c \<or> digit c) \<longrightarrow>
      findUrl (unicode_util whitespace punctuation) whole protocol domain path match =
        NoMatch \<and>
      buildFindCommunity (unicode_util whitespace punctuation) connectedInstance prefix whole
        atext label match = NoMatch \<and>
      buildFindUser (unicode_util whitespace punctuation) connectedInstance prefix whole
        atext label match = NoMatch \<and>
      findEmail (unicode_util whitespace punctuation) whole atext label match = NoMatch)"
proof -
  have a: "previous cu match email \<longleftrightarrow>
      (index match = 0 \<or> unicodeWhitespace cu (code_before match) \<or>
         unicodePunctuation cu (code_before match)) \<and>
      (email \<longrightarrow> code_before match \<noteq> Some 47)"
    by (rule previous_unfold)
  have b: "previous cu match email" if "index match = 0"
    using that by (rule previous_at_start)
  have c: "findUrl cu whole protocol domain path match = NoMatch \<and>
      buildFindCommunity cu connectedInstance prefix whole atext label match = NoMatch \<and>
      buildFindUser cu connectedInstance prefix whole atext label match = NoMatch \<and>
      findEmail cu whole atext label match = NoMatch"
    if "index match \<noteq> 0" and "\<not> unicodeWhitespace cu (code_before match)"
      and "\<not> unicodePunctuation cu (code_before match)" for cu
    using that by (intro handlers_refuse not_previous)
  have d: "findUrl (unicode_util whitespace punctuation) whole protocol domain path match =
        NoMatch \<and>
      buildFindCommunity (unicode_util whitespace punctuation) connectedInstance prefix whole
        atext label match = NoMatch \<and>
      buildFindUser (unicode_util whitespace punctuation) connectedInstance prefix whole
        atext label match = NoMatch \<and>
      findEmail (unicode_util whitespace punctuation) whole atext label match = NoMatch"
    if "code_before match = Some c" and "alpha c \<or> digit c"
    using that letter_digit_plain [of c whitespace punctuation] code_before_index [of match c]
    by (intro c) simp_all
  from a b c [of cu] d show ?thesis by blast
qed

theorem boundary_rejection_in_node_witness:
  "code_before \<lparr>index = 1, input = js ''xhttp://example.org''\<rparr> = Some 120 \<and>
   alpha 120 \<and>
   \<not> unicodeWhitespace ascii_util (Some 120) \<and>
   \<not> unicodePunctuation ascii_util (Some 120) \<and>
   \<not> previous ascii_util \<lparr>index = 1, input = js ''xhttp://example.org''\<rparr> False \<and>
   url_regex (drop 1 (js ''xhttp://example.org'')) =
     Some (js ''http://example.org'', js ''http://'', js ''example.org'', []) \<and>
   findUrl ascii_util (js ''http://example.org'') (js ''http://'') (js ''example.org'') []
     \<lparr>index = 1, input = js ''xhttp://example.org''\<rparr> = NoMatch \<and>
   findUrl (unicode_util (\<lambda>c. False) (\<lambda>c. False)) (js ''http://example.org'') (js ''http://'')
     (js ''example.org'') [] \<lparr>index = 1, input = js ''xhttp://example.org''\<rparr> = NoMatch \<and>
   previous ascii_util \<lparr>index = 0, input = js ''http://example.org''\<rparr> False \<and>
   buildTransformGfmAutolinkLiterals (unicode_util (\<lambda>c. False) (\<lambda>c. False)) (js ''lemmy.world'')
     (Parent [Text (js ''xhttp://example.org'')]) = Parent [Text (js ''xhttp://example.org'')]"
proof -
  let ?m = "\<lparr>index = 1, input = js ''xhttp://example.org''\<rparr>"
  let ?n = "\<lparr>index = 0, input = js ''http://example.org''\<rparr>"
  have c: "code_before ?m = Some 120" and a: "alpha 120"
    by code_simp+
  have w: "\<not> unicodeWhitespace ascii_util (Some 120)"
    and p: "\<not> unicodePunctuation ascii_util (Some 120)"
    by (simp_all add: ascii_util_def)
  have r: "url_regex (drop 1 (js ''xhttp://example.org'')) =
      Some (js ''http://example.org'', js ''http://'', js ''example.org'', [])"
    by code_simp
  have t: "buildTransformGfmAutolinkLiterals (unicode_util (\<lambda>c. False) (\<lambda>c. False))
      (js ''lemmy.world'') (Parent [Text (js ''xhttp://example.org'')]) =
      Parent [Text (js ''xhttp://example.org'')]"
    by code_simp
  have i: "index ?m \<noteq> 0" and j: "index ?n = 0"
    by simp_all
  from boundary_rejection_in_node [where cu = ascii_util and match = ?m and email = False
      and whole = "js ''http://example.org''" and protocol = "js ''http://''"
      and domain = "js ''example.org''" and path = "[]" and c = 120
      and whitespace = "\<lambda>c. False" and punctuation = "\<lambda>c. False"]
    boundary_rejection_in_node [where cu = ascii_util and match = ?n and email = False]
    c a w p r t i j
  show ?thesis by simp
qed

section \<open>Mentions\<close>

lemma js_at: "js ''@'' = [64]"
  by (simp add: js_def)

lemma label_groups_prefix: "take (length (label_groups s)) s = label_groups s"
proof (induction s rule: label_groups.induct)
  case 1
  then show ?case by simp
next
  case (2 c cs)
  show ?case
  proof (cases "c = 46 \<and> takeWhile label_char cs \<noteq> []")
    case True
    let ?tw = "takeWhile label_char cs" and ?dw = "dropWhile label_char cs"
    have cs: "cs = ?tw @ ?dw" by simp
    have "take (length ?tw + length (label_groups ?dw)) cs =
        take (length ?tw + length (label_groups ?dw)) (?tw @ ?dw)"
      by simp
    also have "\<dots> = ?tw @ take (length (label_groups ?dw)) ?dw"
      by (simp only: take_append) simp
    also have "\<dots> = ?tw @ label_groups ?dw"
      using 2 True by simp
    finally show ?thesis using True by simp
  next
    case False
    then show ?thesis by auto
  qed
qed

lemma label_group_prefix:
  assumes "label_group s = Some label"
  shows "take (length label) s = label"
proof -
  let ?tw = "takeWhile label_char s" and ?dw = "dropWhile label_char s"
  from assms have l: "label = ?tw @ label_groups ?dw"
    by (auto simp: label_group_def Let_def split: if_splits)
  have "take (length ?tw + length (label_groups ?dw)) (?tw @ ?dw) =
      ?tw @ take (length (label_groups ?dw)) ?dw"
    by (simp only: take_append) simp
  then show ?thesis
    by (simp add: l label_groups_prefix)
qed

lemma mention_regex_Some:
  assumes "mention_regex P s = Some (whole, atext, label)"
  shows "P @ slice_from atext (int (length P)) @ js ''@'' @ label = whole \<and>
         take (length whole) s = whole"
proof -
  let ?rest = "drop (length P) s"
  let ?name = "takeWhile atext_char ?rest"
  from assms have p: "take (length P) s = P"
    by (auto simp: mention_regex_def starts_with_def split: if_splits)
  from assms obtain cs where d: "dropWhile atext_char ?rest = 64 # cs"
    and lg: "label_group cs = Some label"
    and w: "whole = P @ ?name @ [64] @ label" and a: "atext = P @ ?name"
    by (auto simp: mention_regex_def Let_def split: if_splits list.splits option.splits)
  have s: "s = P @ ?name @ 64 # cs"
  proof -
    have "s = take (length P) s @ ?rest" by simp
    also have "?rest = ?name @ dropWhile atext_char ?rest" by simp
    finally show ?thesis using p d by simp
  qed
  have 1: "slice_from atext (int (length P)) = ?name"
    by (simp add: a slice_from_def rel_index_def)
  have 2: "P @ slice_from atext (int (length P)) @ js ''@'' @ label = whole"
    by (simp only: 1 w js_at)
  have "take (length whole) s = P @ ?name @ 64 # take (length label) cs"
    by (subst s) (simp add: w)
  then have 3: "take (length whole) s = whole"
    using label_group_prefix [OF lg] by (simp add: w)
  from 2 3 show ?thesis by simp
qed

lemma handler_accepts:
  assumes "previous cu match True" and "\<not> test_label_end label"
  shows "buildFindUser cu ci P whole atext label match =
           One (Link None
                  (js ''https://'' @ ci @ js ''/u/'' @ slice_from atext (int (length P)) @
                     js ''@'' @ label)
                  [Text (P @ slice_from atext (int (length P)) @ js ''@'' @ label)])"
    and "buildFindCommunity cu ci P whole atext label match =
           One (Link None
                  (js ''https://'' @ ci @ js ''/c/'' @ slice_from atext (int (length P)) @
                     js ''@'' @ label)
                  [Text (P @ slice_from atext (int (length P)) @ js ''@'' @ label)])"
  using assms by (simp_all add: buildFindUser_def buildFindCommunity_def Let_def)

lemma handler_refuses:
  assumes "\<not> previous cu match True \<or> test_label_end label"
  shows "buildFindUser cu ci P whole atext label match = NoMatch"
    and "buildFindCommunity cu ci P whole atext label match = NoMatch"
  using assms by (auto simp: buildFindUser_def buildFindCommunity_def)

text \<open>
  C1. A mention handler accepts a match exactly when the boundary check with the
  slash-forbidding flag passes and the server capture does not end in \<open>-\<close>, a digit or
  \<open>_\<close>. It then returns one link whose URL is \<open>https://\<close>, the connected instance,
  \<open>/u/\<close> (user handler) or \<open>/c/\<close> (community handler), the name, \<open>@\<close> and the server,
  and whose text is prefix, name, \<open>@\<close> and server; for the captures of the
  mention expressions that text is the matched text itself. The text
  \<open>@alice@instance.tld\<close> with the connected instance \<open>lemmy.world\<close> becomes the one link
  to \<open>https://lemmy.world/u/alice@instance.tld\<close> with the text \<open>@alice@instance.tld\<close>.
\<close>

theorem mention_links:
  "(previous cu match True \<and> \<not> test_label_end label \<longrightarrow>
      buildFindUser cu ci P whole atext label match =
        One (Link None
               (js ''https://'' @ ci @ js ''/u/'' @ slice_from atext (int (length P)) @
                  js ''@'' @ label)
               [Text (P @ slice_from atext (int (length P)) @ js ''@'' @ label)]) \<and>
      buildFindCommunity cu ci P whole atext label match =
        One (Link None
               (js ''https://'' @ ci @ js ''/c/'' @ slice_from atext (int (length P)) @
                  js ''@'' @ label)
               [Text (P @ slice_from atext (int (length P)) @ js ''@'' @ label)])) \<and>
   (\<not> previous cu match True \<or> test_label_end label \<longrightarrow>
      buildFindUser cu ci P whole atext label match = NoMatch \<and>
      buildFindCommunity cu ci P whole atext label match = NoMatch) \<and>
   (mention_regex P s = Some (whole, atext, label) \<longrightarrow>
      P @ slice_from atext (int (length P)) @ js ''@'' @ label = whole \<and>
      take (length whole) s = whole) \<and>
   buildTransformGfmAutolinkLiterals cu (js ''lemmy.world'')
       (Parent [Text (js ''@alice@instance.tld'')]) =
     Parent [Link None (js ''https://lemmy.world/u/alice@instance.tld'')
               [Text (js ''@alice@instance.tld'')]]"
proof -
  have "buildTransformGfmAutolinkLiterals cu (js ''lemmy.world'')
       (Parent [Text (js ''@alice@instance.tld'')]) =
     Parent [Link None (js ''https://lemmy.world/u/alice@instance.tld'')
               [Text (js ''@alice@instance.tld'')]]"
    by code_simp
  moreover have "P @ slice_from atext (int (length P)) @ js ''@'' @ label = whole \<and>
      take (length whole) s = whole"
    if "mention_regex P s = Some (whole, atext, label)"
    using that by (rule mention_regex_Some)
  ultimately show ?thesis
    using handler_accepts [of cu match label ci P whole atext]
      handler_refuses [of cu match label ci P whole atext]
    by blast
qed

theorem mention_links_witness:
  "mention_regex (js ''/u/'') (drop 4 (js ''see /u/bob@example.org.'')) =
     Some (js ''/u/bob@example.org'', js ''/u/bob'', js ''example.org'') \<and>
   previous ascii_util \<lparr>index = 4, input = js ''see /u/bob@example.org.''\<rparr> True \<and>
   \<not> test_label_end (js ''example.org'') \<and>
   buildFindUser ascii_util (js ''lemmy.world'') (js ''/u/'') (js ''/u/bob@example.org'')
       (js ''/u/bob'') (js ''example.org'')
       \<lparr>index = 4, input = js ''see /u/bob@example.org.''\<rparr> =
     One (Link None (js ''https://lemmy.world/u/bob@example.org'')
            [Text (js ''/u/bob@example.org'')]) \<and>
   buildFindCommunity ascii_util (js ''lemmy.world'') (js ''/c/'') (js ''/c/news@example.org'')
       (js ''/c/news'') (js ''example.org'')
       \<lparr>index = 4, input = js ''see /c/news@example.org.''\<rparr> =
     One (Link None (js ''https://lemmy.world/c/news@example.org'')
            [Text (js ''/c/news@example.org'')]) \<and>
   test_label_end (js ''example.c0'') \<and>
   buildFindUser ascii_util (js ''lemmy.world'') (js ''@'') (js ''@bob@example.c0'')
       (js ''@bob'') (js ''example.c0'') \<lparr>index = 0, input = js ''@bob@example.c0''\<rparr> =
     NoMatch"
proof -
  let ?m = "\<lparr>index = 4, input = js ''see /u/bob@example.org.''\<rparr>"
  let ?m' = "\<lparr>index = 4, input = js ''see /c/news@example.org.''\<rparr>"
  let ?n = "\<lparr>index = 0, input = js ''@bob@example.c0''\<rparr>"
  have r: "mention_regex (js ''/u/'') (drop 4 (js ''see /u/bob@example.org.'')) =
     Some (js ''/u/bob@example.org'', js ''/u/bob'', js ''example.org'')"
    by code_simp
  have p: "previous ascii_util ?m True" and p': "previous ascii_util ?m' True"
    by code_simp+
  have l: "\<not> test_label_end (js ''example.org'')" and l0: "test_label_end (js ''example.c0'')"
    by code_simp+
  have a: "buildFindUser ascii_util (js ''lemmy.world'') (js ''/u/'') (js ''/u/bob@example.org'')
       (js ''/u/bob'') (js ''example.org'') ?m =
     One (Link None (js ''https://lemmy.world/u/bob@example.org'')
            [Text (js ''/u/bob@example.org'')])"
    using mention_links [where cu = ascii_util and match = ?m and label = "js ''example.org''"
        and ci = "js ''lemmy.world''" and P = "js ''/u/''" and whole = "js ''/u/bob@example.org''"
        and atext = "js ''/u/bob''"] p l
    by (simp add: js_def slice_from_def rel_index_def)
  have b: "buildFindCommunity ascii_util (js ''lemmy.world'') (js ''/c/'') (js ''/c/news@example.org'')
       (js ''/c/news'') (js ''example.org'') ?m' =
     One (Link None (js ''https://lemmy.world/c/news@example.org'')
            [Text (js ''/c/news@example.org'')])"
    using mention_links [where cu = ascii_util and match = ?m' and label = "js ''example.org''"
        and ci = "js ''lemmy.world''" and P = "js ''/c/''" and whole = "js ''/c/news@example.org''"
        and atext = "js ''/c/news''"] p' l
    by (simp add: js_def slice_from_def rel_index_def)
  have c: "buildFindUser ascii_util (js ''lemmy.world'') (js ''@'') (js ''@bob@example.c0'')
       (js ''@bob'') (js ''example.c0'') ?n = NoMatch"
    using mention_links [where cu = ascii_util and match = ?n and label = "js ''example.c0''"
        and ci = "js ''lemmy.world''" and P = "js ''@''" and whole = "js ''@bob@example.c0''"
        and atext = "js ''@bob''"] l0
    by simp
  from r p l a b l0 c show ?thesis by simp
qed

section \<open>Mentions come before emails\<close>

lemma findEmail_after_mention_sign:
  assumes "code_before match = Some 33 \<or> code_before match = Some 64"
  shows "findEmail cu whole atext label match = NoMatch"
  using assms by (auto simp: findEmail_def code_before_def Let_def)

text \<open>
  C2. The transform turns the text \<open>!community@instance.org\<close> into a community link (its
  URL is under \<open>/c/\<close> on the connected instance) and into nothing else; the email
  expression matches the rest of that text behind the \<open>!\<close>, and the email handler
  refuses it. The email handler refuses every match whose preceding character is \<open>!\<close>
  or \<open>@\<close>. In the table the four mention entries stand before the email entry.
\<close>

theorem community_before_email:
  "buildTransformGfmAutolinkLiterals cu connectedInstance
       (Parent [Text (js ''!community@instance.org'')]) =
     Parent [Link None (js ''https://'' @ connectedInstance @ js ''/c/community@instance.org'')
               [Text (js ''!community@instance.org'')]] \<and>
   mention_regex [] (drop 1 (js ''!community@instance.org'')) =
     Some (js ''community@instance.org'', js ''community'', js ''instance.org'') \<and>
   findEmail cu (js ''community@instance.org'') (js ''community'') (js ''instance.org'')
     \<lparr>index = 1, input = js ''!community@instance.org''\<rparr> = NoMatch \<and>
   (code_before match = Some 33 \<or> code_before match = Some 64 \<longrightarrow>
      findEmail cu whole atext label match = NoMatch) \<and>
   pattern_table cu connectedInstance =
     [url_entry cu,
      mention_entry (js ''!'') (buildFindCommunity cu connectedInstance (js ''!'')),
      mention_entry (js ''/c/'') (buildFindCommunity cu connectedInstance (js ''/c/'')),
      mention_entry (js ''@'') (buildFindUser cu connectedInstance (js ''@'')),
      mention_entry (js ''/u/'') (buildFindUser cu connectedInstance (js ''/u/'')),
      mention_entry [] (findEmail cu)]"
proof -
  have "pattern_table cu connectedInstance =
     [url_entry cu,
      mention_entry (js ''!'') (buildFindCommunity cu connectedInstance (js ''!'')),
      mention_entry (js ''/c/'') (buildFindCommunity cu connectedInstance (js ''/c/'')),
      mention_entry (js ''@'') (buildFindUser cu connectedInstance (js ''@'')),
      mention_entry (js ''/u/'') (buildFindUser cu connectedInstance (js ''/u/'')),
      mention_entry [] (findEmail cu)]"
    by (simp add: pattern_table_def Let_def)
  moreover have "buildTransformGfmAutolinkLiterals cu connectedInstance
       (Parent [Text (js ''!community@instance.org'')]) =
     Parent [Link None (js ''https://'' @ connectedInstance @ js ''/c/community@instance.org'')
               [Text (js ''!community@instance.org'')]]"
    by code_simp
  moreover have "mention_regex [] (drop 1 (js ''!community@instance.org'')) =
     Some (js ''community@instance.org'', js ''community'', js ''instance.org'')"
    by code_simp
  moreover have "code_before \<lparr>index = 1, input = js ''!community@instance.org''\<rparr> = Some 33"
    by code_simp
  ultimately show ?thesis
    using findEmail_after_mention_sign by blast
qed

theorem community_before_email_witness:
  "code_before \<lparr>index = 5, input = js ''see @bob@example.org''\<rparr> = Some 64 \<and>
   mention_regex [] (drop 5 (js ''see @bob@example.org'')) =
     Some (js ''bob@example.org'', js ''bob'', js ''example.org'') \<and>
   previous ascii_util \<lparr>index = 5, input = js ''see @bob@example.org''\<rparr> True \<and>
   \<not> test_label_end (js ''example.org'') \<and>
   findEmail ascii_util (js ''bob@example.org'') (js ''bob'') (js ''example.org'')
     \<lparr>index = 5, input = js ''see @bob@example.org''\<rparr> = NoMatch \<and>
   buildTransformGfmAutolinkLiterals ascii_util (js ''lemmy.world'')
       (Parent [Text (js ''see !community@instance.org'')]) =
     Parent [Text (js ''see ''),
             Link None (js ''https://lemmy.world/c/community@instance.org'')
               [Text (js ''!community@instance.org'')]]"
proof -
  let ?m = "\<lparr>index = 5, input = js ''see @bob@example.org''\<rparr>"
  have c: "code_before ?m = Some 64"
    by code_simp
  have r: "mention_regex [] (drop 5 (js ''see @bob@example.org'')) =
     Some (js ''bob@example.org'', js ''bob'', js ''example.org'')"
    by code_simp
  have p: "previous ascii_util ?m True"
    by code_simp
  have l: "\<not> test_label_end (js ''example.org'')"
    by code_simp
  have t: "buildTransformGfmAutolinkLiterals ascii_util (js ''lemmy.world'')
       (Parent [Text (js ''see !community@instance.org'')]) =
     Parent [Text (js ''see ''),
             Link None (js ''https://lemmy.world/c/community@instance.org'')
               [Text (js ''!community@instance.org'')]]"
    by code_simp
  from community_before_email [where cu = ascii_util and match = ?m
      and whole = "js ''bob@example.org''" and atext = "js ''bob''"
      and label = "js ''example.org''"] c r p l t
  show ?thesis by simp
qed

section \<open>The URL handler\<close>

lemma test_w_canonicalize: "test_w p \<longleftrightarrow> (\<exists>xs. map canonicalize p = 87 # xs)"
proof (cases p)
  case Nil
  then show ?thesis by (simp add: test_w_def)
next
  case (Cons c cs)
  have "(c = 119 \<or> c = 87) \<longleftrightarrow> canonicalize c = 87"
    by (auto simp: canonicalize_def)
  with Cons show ?thesis by (simp add: test_w_def)
qed

lemma canonical_literals:
  "map canonicalize (js ''https://'') = js ''HTTPS://''"
  "map canonicalize (js ''http://'') = js ''HTTP://''"
  "map canonicalize (js ''www'') = js ''WWW''"
  by code_simp+

lemma protocol_group_forms:
  assumes "protocol_group s = Some protocol"
  shows "if test_w protocol then map canonicalize protocol = js ''WWW''
         else map canonicalize protocol = js ''HTTPS://'' \<or>
              map canonicalize protocol = js ''HTTP://''"
proof -
  have len: "length (js ''https://'') = 8" "length (js ''http://'') = 7"
    "length (js ''www'') = 3"
    by (simp_all add: js_def)
  have ci: "map canonicalize (take (length lit) t) = map canonicalize lit"
    if "starts_with_ci lit t" for lit t
    using that by (simp add: starts_with_ci_def)
  from assms have "(starts_with_ci (js ''https://'') s \<and> protocol = take 8 s) \<or>
      (starts_with_ci (js ''http://'') s \<and> protocol = take 7 s) \<or>
      (starts_with_ci (js ''www'') s \<and> protocol = take 3 s)"
    by (auto simp: protocol_group_def split: if_splits)
  then consider
      (https) "map canonicalize protocol = js ''HTTPS://''"
    | (http) "map canonicalize protocol = js ''HTTP://''"
    | (www) "map canonicalize protocol = js ''WWW''"
    using ci [of "js ''https://''" s] ci [of "js ''http://''" s] ci [of "js ''www''" s]
    by (auto simp only: len canonical_literals)
  then show ?thesis
  proof cases
    case https
    then have "\<not> test_w protocol"
      by (simp add: test_w_canonicalize js_def)
    with https show ?thesis by simp
  next
    case http
    then have "\<not> test_w protocol"
      by (simp add: test_w_canonicalize js_def)
    with http show ?thesis by simp
  next
    case www
    then have "test_w protocol"
      by (simp add: test_w_canonicalize js_def)
    with www show ?thesis by simp
  qed
qed

lemma findUrl_result:
  assumes "findUrl cu whole protocol domain path match \<noteq> NoMatch"
  shows "(test_w protocol \<longrightarrow>
            isCorrectDomain (protocol @ domain) \<and>
            nodes_of (findUrl cu whole protocol domain path match) =
              Link None (js ''http://'' @ fst (splitUrl (protocol @ domain @ path)))
                [Text (fst (splitUrl (protocol @ domain @ path)))] #
              trailing_text (snd (splitUrl (protocol @ domain @ path)))) \<and>
         (\<not> test_w protocol \<longrightarrow>
            isCorrectDomain domain \<and>
            nodes_of (findUrl cu whole protocol domain path match) =
              Link None (protocol @ fst (splitUrl (domain @ path)))
                [Text (protocol @ fst (splitUrl (domain @ path)))] #
              trailing_text (snd (splitUrl (domain @ path))))"
  using assms
  by (auto simp: findUrl_def Let_def trailing_text_def split: if_splits option.splits)

lemma url_regex_protocol:
  "url_regex s = Some (whole, protocol, domain, path) \<Longrightarrow> protocol_group s = Some protocol"
  by (auto simp: url_regex_def Let_def split: option.splits if_splits)

text \<open>
  C6. When \<open>findUrl\<close> returns nodes for a first capture that starts with \<open>w\<close> or \<open>W\<close>
  (the \<open>www\<close> form), that capture is part of the domain: the domain checked and split is
  the capture followed by the second one, the URL of the link is \<open>http://\<close> followed by
  the kept part, and the text of the link is the kept part, without a scheme. For any
  other first capture (a protocol) URL and text are both the protocol followed by the kept
  part. The first capture of the expression is \<open>www\<close> in the first case and \<open>http://\<close>
  or \<open>https://\<close> in the second, in any case of letters.
\<close>

theorem findUrl_www_form:
  "(findUrl cu whole protocol domain path match \<noteq> NoMatch \<longrightarrow>
      (test_w protocol \<longrightarrow>
         isCorrectDomain (protocol @ domain) \<and>
         nodes_of (findUrl cu whole protocol domain path match) =
           Link None (js ''http://'' @ fst (splitUrl (protocol @ domain @ path)))
             [Text (fst (splitUrl (protocol @ domain @ path)))] #
           trailing_text (snd (splitUrl (protocol @ domain @ path)))) \<and>
      (\<not> test_w protocol \<longrightarrow>
         isCorrectDomain domain \<and>
         nodes_of (findUrl cu whole protocol domain path match) =
           Link None (protocol @ fst (splitUrl (domain @ path)))
             [Text (protocol @ fst (splitUrl (domain @ path)))] #
           trailing_text (snd (splitUrl (domain @ path))))) \<and>
   (url_regex s = Some (whole', protocol', domain', path') \<longrightarrow>
      (if test_w protocol' then map canonicalize protocol' = js ''WWW''
       else map canonicalize protocol' = js ''HTTPS://'' \<or>
            map canonicalize protocol' = js ''HTTP://''))"
  using findUrl_result [of cu whole protocol domain path match]
    protocol_group_forms [of s protocol'] url_regex_protocol [of s whole' protocol' domain' path']
  by blast

theorem findUrl_www_form_witness:
  "url_regex (js ''www.example.com/a(b).'') =
     Some (js ''www.example.com/a(b).'', js ''www'', js ''.example.com'', js ''/a(b).'') \<and>
   test_w (js ''www'') \<and>
   findUrl ascii_util (js ''www.example.com/a(b).'') (js ''www'') (js ''.example.com'')
       (js ''/a(b).'') \<lparr>index = 0, input = js ''www.example.com/a(b).''\<rparr> =
     Many [Link None (js ''http://www.example.com/a(b)'') [Text (js ''www.example.com/a(b)'')],
           Text (js ''.'')] \<and>
   url_regex (drop 4 (js ''see HTTPS://example.com'')) =
     Some (js ''HTTPS://example.com'', js ''HTTPS://'', js ''example.com'', []) \<and>
   \<not> test_w (js ''HTTPS://'') \<and>
   map canonicalize (js ''HTTPS://'') = js ''HTTPS://'' \<and>
   nodes_of (findUrl ascii_util (js ''HTTPS://example.com'') (js ''HTTPS://'') (js ''example.com'')
       [] \<lparr>index = 4, input = js ''see HTTPS://example.com''\<rparr>) =
     [Link None (js ''HTTPS://example.com'') [Text (js ''HTTPS://example.com'')]]"
proof -
  let ?m = "\<lparr>index = 0, input = js ''www.example.com/a(b).''\<rparr>"
  let ?n = "\<lparr>index = 4, input = js ''see HTTPS://example.com''\<rparr>"
  have r: "url_regex (js ''www.example.com/a(b).'') =
     Some (js ''www.example.com/a(b).'', js ''www'', js ''.example.com'', js ''/a(b).'')"
    and r': "url_regex (drop 4 (js ''see HTTPS://example.com'')) =
     Some (js ''HTTPS://example.com'', js ''HTTPS://'', js ''example.com'', [])"
    by code_simp+
  have w: "test_w (js ''www'')" and w': "\<not> test_w (js ''HTTPS://'')"
    by code_simp+
  have f: "findUrl ascii_util (js ''www.example.com/a(b).'') (js ''www'') (js ''.example.com'')
       (js ''/a(b).'') ?m =
     Many [Link None (js ''http://www.example.com/a(b)'') [Text (js ''www.example.com/a(b)'')],
           Text (js ''.'')]"
    by code_simp
  have f': "findUrl ascii_util (js ''HTTPS://example.com'') (js ''HTTPS://'') (js ''example.com'')
       [] ?n \<noteq> NoMatch"
    by code_simp
  have s: "splitUrl (js ''example.com'' @ []) = (js ''example.com'', None)"
    by code_simp
  have c: "map canonicalize (js ''HTTPS://'') = js ''HTTPS://''"
    by code_simp
  have "nodes_of (findUrl ascii_util (js ''HTTPS://example.com'') (js ''HTTPS://'')
      (js ''example.com'') [] ?n) =
      [Link None (js ''HTTPS://example.com'') [Text (js ''HTTPS://example.com'')]]"
    using findUrl_www_form [where cu = ascii_util and whole = "js ''HTTPS://example.com''"
        and protocol = "js ''HTTPS://''" and domain = "js ''example.com''" and path = "[]"
        and match = ?n and s = "drop 4 (js ''see HTTPS://example.com'')"
        and whole' = "js ''HTTPS://example.com''" and protocol' = "js ''HTTPS://''"
        and domain' = "js ''example.com''" and path' = "[]"] f' w' s
    by (simp add: trailing_text_def js_def)
  with r r' w w' f c show ?thesis by simp
qed

subsection \<open>An empty trimmed part\<close>

lemma findUrl_shape:
  "findUrl cu whole protocol domain path match = NoMatch \<or>
   (\<exists>u d. findUrl cu whole protocol domain path match = One (Link None u [Text d])) \<or>
   (\<exists>u d t. findUrl cu whole protocol domain path match =
      Many [Link None u [Text d], Text t] \<and> t \<noteq> [])"
  by (auto simp: findUrl_def Let_def split: if_splits option.splits)

lemma findUrl_no_empty_text:
  "Text [] \<notin> set (nodes_of (findUrl cu whole protocol domain path match))"
  using findUrl_shape [of cu whole protocol domain path match] by auto

lemma findUrl_empty_trimmed:
  assumes "snd (splitUrl ((if test_w protocol then protocol @ domain else domain) @ path)) \<in>
             {None, Some []}"
  shows "findUrl cu whole protocol domain path match \<noteq> Many ns"
  using assms by (auto simp: findUrl_def Let_def split: if_splits option.splits)

text \<open>
  C10. For some inputs \<open>splitUrl\<close> returns the empty string as the trimmed part, not
  undefined: for \<open>a(b)\<close> the whole trailing run \<open>)\<close> moves back into the kept part.
  \<open>findUrl\<close> treats the empty string like undefined: it returns no array then, and no
  node it ever returns is a text node with an empty value.
\<close>

theorem findUrl_empty_trail:
  "splitUrl (js ''a(b)'') = (js ''a(b)'', Some []) \<and>
   Text [] \<notin> set (nodes_of (findUrl cu whole protocol domain path match)) \<and>
   (snd (splitUrl ((if test_w protocol then protocol @ domain else domain) @ path)) \<in>
        {None, Some []} \<longrightarrow>
      (\<forall>ns. findUrl cu whole protocol domain path match \<noteq> Many ns)) \<and>
   findUrl cu (js ''http://a.b/(c)'') (js ''http://'') (js ''a.b'') (js ''/(c)'')
       \<lparr>index = 0, input = js ''http://a.b/(c)''\<rparr> =
     One (Link None (js ''http://a.b/(c)'') [Text (js ''http://a.b/(c)'')])"
proof -
  have "splitUrl (js ''a(b)'') = (js ''a(b)'', Some [])"
    by code_simp
  moreover have "findUrl cu (js ''http://a.b/(c)'') (js ''http://'') (js ''a.b'') (js ''/(c)'')
       \<lparr>index = 0, input = js ''http://a.b/(c)''\<rparr> =
     One (Link None (js ''http://a.b/(c)'') [Text (js ''http://a.b/(c)'')])"
    by code_simp
  ultimately show ?thesis
    using findUrl_no_empty_text [of cu whole protocol domain path match]
      findUrl_empty_trimmed [of protocol domain path cu whole match]
    by blast
qed

theorem findUrl_empty_trail_witness:
  "snd (splitUrl ((if test_w (js ''http://'') then js ''http://'' @ js ''a.b'' else js ''a.b'') @
        js ''/(c)'')) = Some [] \<and>
   (\<forall>ns. findUrl ascii_util (js ''http://a.b/(c)'') (js ''http://'') (js ''a.b'') (js ''/(c)'')
       \<lparr>index = 0, input = js ''http://a.b/(c)''\<rparr> \<noteq> Many ns) \<and>
   Text [] \<notin> set (nodes_of (findUrl ascii_util (js ''http://a.b/(c)'') (js ''http://'')
       (js ''a.b'') (js ''/(c)'') \<lparr>index = 0, input = js ''http://a.b/(c)''\<rparr>))"
proof -
  have s: "snd (splitUrl ((if test_w (js ''http://'') then js ''http://'' @ js ''a.b''
      else js ''a.b'') @ js ''/(c)'')) = Some []"
    by code_simp
  from findUrl_empty_trail [where cu = ascii_util and whole = "js ''http://a.b/(c)''"
      and protocol = "js ''http://''" and domain = "js ''a.b''" and path = "js ''/(c)''"
      and match = "\<lparr>index = 0, input = js ''http://a.b/(c)''\<rparr>"] s
  show ?thesis by simp
qed

section \<open>The escape rules\<close>

text \<open>
  C9. The extension for serialization declares exactly three rules, each in phrasing
  content and not inside an autolink, link, image or label: \<open>@\<close> between a character
  matching \<open>[+\-.\w]\<close> and one matching \<open>[\-.\w]\<close>; \<open>.\<close> between \<open>[Ww]\<close> and one matching
  \<open>[\-.\w]\<close>; \<open>:\<close> between \<open>[ps]\<close> and \<open>\/\<close>.
\<close>

theorem unsafe_rules:
  "length gfmAutolinkLiteralToMarkdown = 3 \<and>
   map character gfmAutolinkLiteralToMarkdown = [js ''@'', js ''.'', js '':''] \<and>
   map before gfmAutolinkLiteralToMarkdown =
     [js ''[+'' @ backslash @ js ''-.'' @ backslash @ js ''w]'', js ''[Ww]'', js ''[ps]''] \<and>
   map after gfmAutolinkLiteralToMarkdown =
     [js ''['' @ backslash @ js ''-.'' @ backslash @ js ''w]'',
      js ''['' @ backslash @ js ''-.'' @ backslash @ js ''w]'',
      backslash @ js ''/''] \<and>
   map unsafe_inConstruct gfmAutolinkLiteralToMarkdown = replicate 3 (js ''phrasing'') \<and>
   map unsafe_notInConstruct gfmAutolinkLiteralToMarkdown =
     replicate 3 [js ''autolink'', js ''link'', js ''image'', js ''label'']"
  by (simp add: gfmAutolinkLiteralToMarkdown_def inConstruct_def notInConstruct_def
      numeral_3_eq_3)

end
